theory Spec2Isabelle
  imports Main "HOL-Library.Word"
begin

unbundle bit_operations_syntax

section \<open>The Python and host operations the providers use\<close>

text \<open>
  The providers of \<^verbatim>\<open>prettyPrinters/gdb_providers.py\<close> are embedded as HOL functions.
  A Python exception is a value of \<open>py_error\<close>, and a function that can raise returns
  \<open>py_error + 'a\<close> with \<open>Inl\<close> for the exception. \<open>HostError\<close> stands for an error
  raised by the debugger itself (a missing field, a conversion it refuses).
\<close>

datatype py_error = IndexError | ZeroDivisionError | ValueError | AttributeError | HostError

text \<open>\<open>str(n)\<close> for a Python integer: decimal digits, with a leading minus sign.\<close>

definition digit_char :: "nat \<Rightarrow> char" where
  "digit_char d = ''0123456789'' ! d"

fun digits :: "nat \<Rightarrow> string" where
  "digits n = (if n < 10 then [digit_char n] else digits (n div 10) @ [digit_char (n mod 10)])"

declare digits.simps [simp del]

definition str_int :: "int \<Rightarrow> string" where
  "str_int n = (if n < 0 then CHR ''-'' # digits (nat (- n)) else digits (nat n))"

text \<open>
  \<open>template.format(*args)\<close> for the templates of this file: literal text, the
  automatically numbered field \<^verbatim>\<open>{}\<close> (which takes the next argument, already rendered
  by \<open>str\<close>) and the escapes \<^verbatim>\<open>{{\<close> and \<^verbatim>\<open>}}\<close>. Arguments that no field asks for are
  ignored, as Python does; a field with no argument left raises IndexError; any other
  use of a brace is a ValueError here (the file has no named or indexed field).
\<close>

fun str_format :: "string \<Rightarrow> string list \<Rightarrow> py_error + string" where
  "str_format [] args = Inr []"
| "str_format (c # cs) args =
     (if c = CHR ''{'' then
        (case cs of
           [] \<Rightarrow> Inl ValueError
         | d # rest \<Rightarrow>
             if d = CHR ''}'' then
               (case args of
                  [] \<Rightarrow> Inl IndexError
                | a # as \<Rightarrow>
                    (case str_format rest as of Inl e \<Rightarrow> Inl e | Inr s \<Rightarrow> Inr (a @ s)))
             else if d = CHR ''{'' then
               (case str_format rest args of Inl e \<Rightarrow> Inl e | Inr s \<Rightarrow> Inr (CHR ''{'' # s))
             else Inl ValueError)
      else if c = CHR ''}'' then
        (case cs of
           [] \<Rightarrow> Inl ValueError
         | d # rest \<Rightarrow>
             if d = CHR ''}'' then
               (case str_format rest args of Inl e \<Rightarrow> Inl e | Inr s \<Rightarrow> Inr (CHR ''}'' # s))
             else Inl ValueError)
      else (case str_format cs args of Inl e \<Rightarrow> Inl e | Inr s \<Rightarrow> Inr (c # s)))"

text \<open>\<open>range(n)\<close> (and \<open>xrange(0, n)\<close>) on Python integers: empty when \<open>n \<le> 0\<close>.\<close>

definition py_range :: "int \<Rightarrow> int list" where
  "py_range n = [0..n - 1]"

text \<open>\<open>a % b\<close> on Python integers: the sign follows the divisor, as HOL's \<open>mod\<close> on
  \<open>int\<close>; a zero divisor raises.\<close>

definition py_mod :: "int \<Rightarrow> int \<Rightarrow> py_error + int" where
  "py_mod a b = (if b = 0 then Inl ZeroDivisionError else Inr (a mod b))"

text \<open>\<open>xs[i]\<close> on a Python list: a negative index counts from the end.\<close>

definition py_getitem :: "'a list \<Rightarrow> int \<Rightarrow> py_error + 'a" where
  "py_getitem xs i =
     (let n = int (length xs); j = (if i < 0 then n + i else i)
      in if 0 \<le> j \<and> j < n then Inr (xs ! nat j) else Inl IndexError)"

text \<open>
  A generator whose body is one \<open>for\<close> loop: \<open>for_yield body is\<close> runs \<open>body\<close> on each
  element of \<open>is\<close> in order and yields what each run yields. The first exception ends
  the enumeration.
\<close>

fun for_yield :: "('i \<Rightarrow> py_error + 'a list) \<Rightarrow> 'i list \<Rightarrow> py_error + 'a list" where
  "for_yield body [] = Inr []"
| "for_yield body (i # is) =
     (case body i of
        Inl e \<Rightarrow> Inl e
      | Inr ys \<Rightarrow> (case for_yield body is of Inl e \<Rightarrow> Inl e | Inr zs \<Rightarrow> Inr (ys @ zs)))"

text \<open>
  A typed pointer of the host: a view of the inspected memory in units of the pointee
  (\<open>mem p i\<close> is the value \<open>i\<close> elements after the view's origin) and the pointer's
  position in it. \<open>ptr + i\<close> moves the position; \<open>ptr.dereference()\<close> reads there.
  Whether an address is mapped is the host's concern and is not modelled.
\<close>

record 'a pointer =
  mem :: "int \<Rightarrow> 'a"
  pos :: int

definition ptr_add :: "'a pointer \<Rightarrow> int \<Rightarrow> 'a pointer" where
  "ptr_add p i = p\<lparr>pos := pos p + i\<rparr>"

definition dereference :: "'a pointer \<Rightarrow> 'a" where
  "dereference p = mem p (pos p)"

section \<open>Growable array: StdVecProvider\<close>

record 'a StdVecProvider =
  vec_length :: int
  vec_data_ptr :: "'a pointer"

text \<open>\<open>__init__\<close>: \<open>len_field\<close> is \<open>int(valobj["len"])\<close>, \<open>ptr\<close> the unwrapped buffer
  pointer.\<close>

definition StdVecProvider_init :: "int \<Rightarrow> 'a pointer \<Rightarrow> 'a StdVecProvider" where
  "StdVecProvider_init len_field ptr = \<lparr>vec_length = len_field, vec_data_ptr = ptr\<rparr>"

definition StdVecProvider_to_string :: "'a StdVecProvider \<Rightarrow> py_error + string" where
  "StdVecProvider_to_string self = str_format ''size={}'' [str_int (vec_length self)]"

definition StdVecProvider_children :: "'a StdVecProvider \<Rightarrow> py_error + (string \<times> 'a) list" where
  "StdVecProvider_children self =
     for_yield (\<lambda>index.
        case str_format ''[{}]'' [str_int index] of
          Inl e \<Rightarrow> Inl e
        | Inr key \<Rightarrow> Inr [(key, dereference (ptr_add (vec_data_ptr self) index))])
       (py_range (vec_length self))"

section \<open>Ring buffer: StdVecDequeProvider\<close>

record 'a StdVecDequeProvider =
  deque_head :: int
  deque_tail :: int
  deque_cap :: int
  deque_data_ptr :: "'a pointer"
  deque_size :: int

definition StdVecDequeProvider_init ::
  "int \<Rightarrow> int \<Rightarrow> int \<Rightarrow> 'a pointer \<Rightarrow> 'a StdVecDequeProvider" where
  "StdVecDequeProvider_init head tail cap ptr =
     \<lparr>deque_head = head, deque_tail = tail, deque_cap = cap, deque_data_ptr = ptr,
      deque_size = (if head \<ge> tail then head - tail else cap + head - tail)\<rparr>"

definition StdVecDequeProvider_to_string :: "'a StdVecDequeProvider \<Rightarrow> py_error + string" where
  "StdVecDequeProvider_to_string self = str_format ''size={}'' [str_int (deque_size self)]"

definition StdVecDequeProvider_children ::
  "'a StdVecDequeProvider \<Rightarrow> py_error + (string \<times> 'a) list" where
  "StdVecDequeProvider_children self =
     for_yield (\<lambda>index.
        case str_format ''[{}]'' [str_int index] of
          Inl e \<Rightarrow> Inl e
        | Inr key \<Rightarrow>
            (case py_mod (deque_tail self + index) (deque_cap self) of
               Inl e \<Rightarrow> Inl e
             | Inr slot \<Rightarrow> Inr [(key, dereference (ptr_add (deque_data_ptr self) slot))]))
       (py_range (deque_size self))"

section \<open>Reference-counted boxes: StdRcProvider\<close>

text \<open>
  The control block a reference-counted handle points to. The plain flavour keeps its
  counters under \<^verbatim>\<open>strong.value.value\<close> and \<^verbatim>\<open>weak.value.value\<close> and its payload under
  \<^verbatim>\<open>value\<close>; the atomic flavour under \<^verbatim>\<open>strong.v.value\<close>, \<^verbatim>\<open>weak.v.value\<close> and \<^verbatim>\<open>data\<close>.
  The counters are values of the host of the inspected program's unsigned word type
  (64 bits here), so the host's arithmetic on them is arithmetic on words.
\<close>

type_synonym usize = "64 word"

datatype 'a control_block =
    RcBox usize usize 'a
  | ArcInner usize usize 'a

record 'a StdRcProvider =
  rc_value :: 'a
  rc_strong :: usize
  rc_weak :: usize

datatype 'a rc_child = Payload 'a | Counter usize

text \<open>\<open>__init__\<close>: a field path that the control block does not have is an error of the
  host.\<close>

fun StdRcProvider_init :: "'a control_block \<Rightarrow> bool \<Rightarrow> py_error + 'a StdRcProvider" where
  "StdRcProvider_init (RcBox strong weak v) is_atomic =
     (if is_atomic then Inl HostError
      else Inr \<lparr>rc_value = v, rc_strong = strong, rc_weak = weak - 1\<rparr>)"
| "StdRcProvider_init (ArcInner strong weak d) is_atomic =
     (if is_atomic then Inr \<lparr>rc_value = d, rc_strong = strong, rc_weak = weak - 1\<rparr>
      else Inl HostError)"

definition StdRcProvider_to_string :: "'a StdRcProvider \<Rightarrow> py_error + string" where
  "StdRcProvider_to_string self =
     str_format ''strong={}, weak={}''
       [str_int (uint (rc_strong self)), str_int (uint (rc_weak self))]"

definition StdRcProvider_children :: "'a StdRcProvider \<Rightarrow> (string \<times> 'a rc_child) list" where
  "StdRcProvider_children self =
     [(''value'', Payload (rc_value self)),
      (''strong'', Counter (rc_strong self)),
      (''weak'', Counter (rc_weak self))]"

section \<open>Borrow-tracking cell and its guard: StdRefCellProvider, StdRefProvider\<close>

text \<open>\<open>ref_borrow\<close> and \<open>refcell_borrow\<close> hold the stored signed counter; \<open>int(self.borrow)\<close>
  is its value as a Python integer.\<close>

record 'a StdRefProvider =
  ref_value :: 'a
  ref_borrow :: int

definition StdRefProvider_to_string :: "'a StdRefProvider \<Rightarrow> py_error + string" where
  "StdRefProvider_to_string self =
     (let borrow = ref_borrow self
      in if borrow \<ge> 0 then str_format ''borrow={}'' [str_int borrow]
         else str_format ''borrow_mut={}'' [str_int (- borrow)])"

record 'a StdRefCellProvider =
  refcell_value :: 'a
  refcell_borrow :: int

definition StdRefCellProvider_to_string :: "'a StdRefCellProvider \<Rightarrow> py_error + string" where
  "StdRefCellProvider_to_string self =
     (let borrow = refcell_borrow self
      in if borrow \<ge> 0 then str_format ''borrow={}'' [str_int borrow]
         else str_format ''borrow_mut={}'' [str_int (- borrow)])"

section \<open>B-tree containers: children_of_node, StdBTreeSetProvider, StdBTreeMapProvider\<close>

text \<open>
  A node as \<open>children_of_node\<close> reads it: the header's \<open>keys\<close> and \<open>vals\<close> arrays and its
  \<open>len\<close>, and the \<open>edges\<close> array of an internal node (empty for a leaf). The arrays have
  the node's fixed capacity; \<open>len\<close> says how many keys are live. \<open>len\<close> and the height are
  unsigned in the inspected program, so they are natural numbers here. A read past the
  end of an array is an error of the host.
\<close>

datatype ('k, 'v) node =
  Node (keys: "'k list") (vals: "'v list") (len: nat) (edges: "('k, 'v) node list")

text \<open>What the traversal yields: a key alone, or a key with its value.\<close>

datatype ('k, 'v) entry = Key 'k | KeyVal 'k 'v

definition array_get :: "'a list \<Rightarrow> nat \<Rightarrow> py_error + 'a" where
  "array_get xs i = (if i < length xs then Inr (xs ! i) else Inl HostError)"

function children_of_node ::
  "('k, 'v) node \<Rightarrow> nat \<Rightarrow> bool \<Rightarrow> py_error + ('k, 'v) entry list" where
  "children_of_node boxed_node height want_values =
     for_yield (\<lambda>i.
        case (if height > 0 then
                (case array_get (edges boxed_node) i of
                   Inl e \<Rightarrow> Inl e
                 | Inr edge \<Rightarrow> children_of_node edge (height - 1) want_values)
              else Inr []) of
          Inl e \<Rightarrow> Inl e
        | Inr below \<Rightarrow>
            if i < len boxed_node then
              (if want_values then
                 (case array_get (keys boxed_node) i of
                    Inl e \<Rightarrow> Inl e
                  | Inr k \<Rightarrow>
                      (case array_get (vals boxed_node) i of
                         Inl e \<Rightarrow> Inl e
                       | Inr v \<Rightarrow> Inr (below @ [KeyVal k v])))
               else
                 (case array_get (keys boxed_node) i of
                    Inl e \<Rightarrow> Inl e
                  | Inr k \<Rightarrow> Inr (below @ [Key k])))
            else Inr below)
       [0..<len boxed_node + 1]"
  by pat_completeness auto
termination
  by (relation "measure (\<lambda>(n, h, w). h)") auto

declare children_of_node.simps [simp del]

text \<open>The set and the map provider keep the value handle; \<open>to_string\<close> reads the
  top-level length field of it, given here as the field's integer value.\<close>

definition StdBTreeSetProvider_to_string :: "int \<Rightarrow> py_error + string" where
  "StdBTreeSetProvider_to_string map_length = str_format ''size='' [str_int map_length]"

definition StdBTreeMapProvider_to_string :: "int \<Rightarrow> py_error + string" where
  "StdBTreeMapProvider_to_string length_field = str_format ''size='' [str_int length_field]"

text \<open>
  The in-order listing of a B-tree of height \<open>h\<close>, written from the specification and not
  from the code: the live keys of a leaf in array order; for an internal node, for each
  live key the listing of the child to its left and then the key, and at last the
  listing of the rightmost child. \<open>inorder_entries\<close> lists the entries the same way
  (keys alone, or keys with their values).
\<close>

fun entry_key :: "('k, 'v) entry \<Rightarrow> 'k" where
  "entry_key (Key k) = k"
| "entry_key (KeyVal k v) = k"

definition own_entry :: "bool \<Rightarrow> ('k, 'v) node \<Rightarrow> nat \<Rightarrow> ('k, 'v) entry" where
  "own_entry want_values n i =
     (if want_values then KeyVal (keys n ! i) (vals n ! i) else Key (keys n ! i))"

fun inorder :: "nat \<Rightarrow> ('k, 'v) node \<Rightarrow> 'k list" where
  "inorder 0 n = take (len n) (keys n)"
| "inorder (Suc h) n =
     concat (map (\<lambda>i. inorder h (edges n ! i) @ [keys n ! i]) [0..<len n])
     @ inorder h (edges n ! len n)"

fun inorder_entries :: "bool \<Rightarrow> nat \<Rightarrow> ('k, 'v) node \<Rightarrow> ('k, 'v) entry list" where
  "inorder_entries want_values 0 n = map (own_entry want_values n) [0..<len n]"
| "inorder_entries want_values (Suc h) n =
     concat (map (\<lambda>i. inorder_entries want_values h (edges n ! i) @ [own_entry want_values n i])
               [0..<len n])
     @ inorder_entries want_values h (edges n ! len n)"

text \<open>
  A well-formed tree of height \<open>h\<close>: every node stores \<open>len\<close> keys (and values) and, above
  the leaves, \<open>len + 1\<close> child edges, each a well-formed tree of height \<open>h - 1\<close>.
\<close>

fun wf_node :: "nat \<Rightarrow> ('k, 'v) node \<Rightarrow> bool" where
  "wf_node 0 n = (len n \<le> length (keys n) \<and> len n \<le> length (vals n))"
| "wf_node (Suc h) n =
     (len n \<le> length (keys n) \<and> len n \<le> length (vals n) \<and> len n < length (edges n) \<and>
      list_all (wf_node h) (take (len n + 1) (edges n)))"

text \<open>The keys a tree holds.\<close>

fun tree_keys :: "nat \<Rightarrow> ('k, 'v) node \<Rightarrow> 'k set" where
  "tree_keys 0 n = set (take (len n) (keys n))"
| "tree_keys (Suc h) n =
     set (take (len n) (keys n)) \<union> (\<Union>e \<in> set (take (len n + 1) (edges n)). tree_keys h e)"

text \<open>
  The search-tree order of a B-tree built from distinct keys: the keys of a node ascend
  strictly, every key of the child left of key \<open>i\<close> is below it and every key of the
  child right of it is above it, and the children are ordered in turn.
\<close>

fun ordered :: "nat \<Rightarrow> ('k::linorder, 'v) node \<Rightarrow> bool" where
  "ordered 0 n = sorted_wrt (<) (take (len n) (keys n))"
| "ordered (Suc h) n =
     (sorted_wrt (<) (take (len n) (keys n)) \<and>
      list_all (\<lambda>i. list_all (\<lambda>k. k < keys n ! i) (inorder h (edges n ! i)) \<and>
                    list_all (\<lambda>k. keys n ! i < k) (inorder h (edges n ! Suc i)))
        [0..<len n] \<and>
      list_all (ordered h) (take (len n + 1) (edges n)))"

section \<open>Aggregates: EnumProvider\<close>

text \<open>
  A value handle of the host, as far as the enum provider looks at it: a scalar of an
  integer type, or a value of a structure type with its fields in declaration order.
  Both carry the name of their type. \<open>type_fields\<close> is \<open>value.type.fields()\<close> with each
  field paired with the value \<open>value[field]\<close>; the host refuses it on a scalar, and it
  refuses \<open>int(value)\<close> on a structure.
\<close>

datatype gdb_value =
    Scalar string int
  | Struct string "(string \<times> gdb_value) list"

fun type_name :: "gdb_value \<Rightarrow> string" where
  "type_name (Scalar tn n) = tn"
| "type_name (Struct tn fs) = tn"

fun type_fields :: "gdb_value \<Rightarrow> py_error + (string \<times> gdb_value) list" where
  "type_fields (Scalar tn n) = Inl HostError"
| "type_fields (Struct tn fs) = Inr fs"

fun py_int :: "gdb_value \<Rightarrow> py_error + int" where
  "py_int (Scalar tn n) = Inr n"
| "py_int (Struct tn fs) = Inl HostError"

text \<open>The attributes \<open>active_variant\<close> and \<open>name\<close> are set only for an enum that is not
  empty.\<close>

record EnumProvider =
  enum_empty :: bool
  enum_active_variant :: "gdb_value option"
  enum_name :: "string option"
  enum_full_name :: string

definition EnumProvider_init :: "gdb_value \<Rightarrow> py_error + EnumProvider" where
  "EnumProvider_init valobj =
     (case type_fields valobj of
        Inl e \<Rightarrow> Inl e
      | Inr outer \<Rightarrow>
     (case py_getitem outer 0 of
        Inl e \<Rightarrow> Inl e
      | Inr first \<Rightarrow>
     (let content = snd first in
     (case type_fields content of
        Inl e \<Rightarrow> Inl e
      | Inr sub_fields \<Rightarrow>
          if length sub_fields \<noteq> 0 then
            (case (if length sub_fields = 1 then Inr 0
                   else (case py_getitem sub_fields 0 of
                           Inl e \<Rightarrow> Inl e
                         | Inr tag \<Rightarrow>
                             (case py_int (snd tag) of Inl e \<Rightarrow> Inl e | Inr d \<Rightarrow> Inr (d + 1)))) of
               Inl e \<Rightarrow> Inl e
             | Inr discriminant \<Rightarrow>
            (case py_getitem sub_fields discriminant of
               Inl e \<Rightarrow> Inl e
             | Inr active \<Rightarrow>
            (case str_format ''{}::{}'' [type_name valobj, fst active] of
               Inl e \<Rightarrow> Inl e
             | Inr full \<Rightarrow>
                 Inr \<lparr>enum_empty = False, enum_active_variant = Some (snd active),
                      enum_name = Some (fst active), enum_full_name = full\<rparr>)))
          else
            Inr \<lparr>enum_empty = True, enum_active_variant = None, enum_name = None,
                 enum_full_name = type_name valobj\<rparr>))))"

definition EnumProvider_to_string :: "EnumProvider \<Rightarrow> string" where
  "EnumProvider_to_string self = enum_full_name self"

definition EnumProvider_children :: "EnumProvider \<Rightarrow> py_error + (string \<times> gdb_value) list" where
  "EnumProvider_children self =
     (if \<not> enum_empty self then
        (case (enum_name self, enum_active_variant self) of
           (Some name, Some active) \<Rightarrow> Inr [(name, active)]
         | _ \<Rightarrow> Inl AttributeError)
      else Inr [])"

section \<open>Hash tables: StdOldHashMapProvider, StdHashMapProvider\<close>

text \<open>
  The legacy layout. \<open>__init__\<close> takes what it reads from the table: \<open>size\<close>, the size in
  bytes of the hash word type (\<open>hashes.type.sizeof\<close>), the address held by the tagged
  hash pointer, \<open>capacity_mask\<close> and the size in bytes of the pair type. \<open>hash_word a\<close>
  is the integer value of the hash word stored at byte address \<open>a\<close>, and \<open>pair_at a\<close>
  the pair stored at \<open>a\<close>. The pointer to the hash words advances by the size of a
  hash word, the pointer to the pairs by the size of a pair. The modulus is a power
  of two, so \<open>%\<close> never divides by zero.
\<close>

record 'e StdOldHashMapProvider =
  ohm_show_values :: bool
  ohm_size :: int
  ohm_hash_uint_size :: int
  ohm_modulo :: int
  ohm_data_ptr :: int
  ohm_capacity_mask :: int
  ohm_capacity :: int
  ohm_pair_type_size :: int
  ohm_valid_indices :: "int list"
  ohm_pair_at :: "int \<Rightarrow> 'e"

definition StdOldHashMapProvider_init ::
  "bool \<Rightarrow> int \<Rightarrow> int \<Rightarrow> int \<Rightarrow> (int \<Rightarrow> int) \<Rightarrow> int \<Rightarrow> int \<Rightarrow> (int \<Rightarrow> 'e)
     \<Rightarrow> 'e StdOldHashMapProvider" where
  "StdOldHashMapProvider_init show_values size_field hash_uint_size data_ptr hash_word
       capacity_mask pair_type_size pair_at =
     (let modulo = 2 ^ nat hash_uint_size;
          capacity = (capacity_mask + 1) mod modulo
      in \<lparr>ohm_show_values = show_values, ohm_size = size_field,
           ohm_hash_uint_size = hash_uint_size, ohm_modulo = modulo, ohm_data_ptr = data_ptr,
           ohm_capacity_mask = capacity_mask, ohm_capacity = capacity,
           ohm_pair_type_size = pair_type_size,
           ohm_valid_indices =
             filter (\<lambda>idx. hash_word (data_ptr + idx * hash_uint_size) \<noteq> 0) (py_range capacity),
           ohm_pair_at = pair_at\<rparr>)"

definition StdOldHashMapProvider_to_string :: "'e StdOldHashMapProvider \<Rightarrow> py_error + string" where
  "StdOldHashMapProvider_to_string self = str_format ''size={}'' [str_int (ohm_size self)]"

text \<open>The children of both hash-table providers: the key and the value of each pair in
  map mode, the key alone in set mode.\<close>

definition pair_children :: "bool \<Rightarrow> int \<Rightarrow> 'k \<times> 'v \<Rightarrow> py_error + (string \<times> ('k + 'v)) list" where
  "pair_children show_values index element =
     (if show_values then
        (case str_format ''key{}'' [str_int index] of
           Inl e \<Rightarrow> Inl e
         | Inr key_label \<Rightarrow>
             (case str_format ''val{}'' [str_int index] of
                Inl e \<Rightarrow> Inl e
              | Inr val_label \<Rightarrow>
                  Inr [(key_label, Inl (fst element)), (val_label, Inr (snd element))]))
      else
        (case str_format ''[{}]'' [str_int index] of
           Inl e \<Rightarrow> Inl e
         | Inr label \<Rightarrow> Inr [(label, Inl (fst element))]))"

definition StdOldHashMapProvider_children ::
  "('k \<times> 'v) StdOldHashMapProvider \<Rightarrow> py_error + (string \<times> ('k + 'v)) list" where
  "StdOldHashMapProvider_children self =
     (let start = ohm_data_ptr self AND NOT 1;
          hashes = ohm_hash_uint_size self * ohm_capacity self;
          align = ohm_pair_type_size self;
          m = ohm_modulo self;
          len_rounded_up =
            (((((hashes + align) mod m - 1) mod m) AND NOT ((align - 1) mod m)) mod m - hashes) mod m;
          pairs_offset = hashes + len_rounded_up;
          pairs_start = start + pairs_offset
      in for_yield (\<lambda>index.
           case py_getitem (ohm_valid_indices self) index of
             Inl e \<Rightarrow> Inl e
           | Inr table_index \<Rightarrow>
               (let idx = table_index AND ohm_capacity_mask self;
                    element = ohm_pair_at self (pairs_start + idx * ohm_pair_type_size self)
                in pair_children (ohm_show_values self) index element))
          (py_range (ohm_size self)))"

text \<open>
  The current layout. \<open>__init__\<close> takes \<open>bucket_mask\<close>, the pointer to the control bytes,
  \<open>items\<close> and the pointer to the elements.
\<close>

record 'e StdHashMapProvider =
  hm_show_values :: bool
  hm_size :: int
  hm_data_ptr :: "'e pointer"
  hm_valid_indices :: "int list"

definition StdHashMapProvider_init ::
  "bool \<Rightarrow> int \<Rightarrow> 8 word pointer \<Rightarrow> int \<Rightarrow> 'e pointer \<Rightarrow> 'e StdHashMapProvider" where
  "StdHashMapProvider_init show_values bucket_mask ctrl items data_ptr =
     (let capacity = bucket_mask + 1
      in \<lparr>hm_show_values = show_values, hm_size = items, hm_data_ptr = data_ptr,
           hm_valid_indices =
             filter (\<lambda>idx. dereference (ptr_add ctrl idx) AND 128 = 0) (py_range capacity)\<rparr>)"

definition StdHashMapProvider_to_string :: "'e StdHashMapProvider \<Rightarrow> py_error + string" where
  "StdHashMapProvider_to_string self = str_format ''size={}'' [str_int (hm_size self)]"

definition StdHashMapProvider_children ::
  "('k \<times> 'v) StdHashMapProvider \<Rightarrow> py_error + (string \<times> ('k + 'v)) list" where
  "StdHashMapProvider_children self =
     (let pairs_start = hm_data_ptr self
      in for_yield (\<lambda>index.
           case py_getitem (hm_valid_indices self) index of
             Inl e \<Rightarrow> Inl e
           | Inr idx \<Rightarrow>
               (let element = dereference (ptr_add pairs_start idx)
                in pair_children (hm_show_values self) index element))
          (py_range (hm_size self)))"

section \<open>Facts about the Python operations\<close>

lemma for_yield_singletons:
  "(\<And>i. i \<in> set js \<Longrightarrow> body i = Inr [g i]) \<Longrightarrow> for_yield body js = Inr (map g js)"
  by (induction js) auto

lemma for_yield_Inr:
  "(\<And>i. i \<in> set js \<Longrightarrow> body i = Inr (g i)) \<Longrightarrow> for_yield body js = Inr (concat (map g js))"
  by (induction js) auto

lemma length_py_range: "length (py_range n) = nat n"
  by (simp add: py_range_def)

lemma nth_py_range: "0 \<le> i \<Longrightarrow> i < n \<Longrightarrow> py_range n ! nat i = i"
  by (simp add: py_range_def)

lemma py_range_nonpos: "n \<le> 0 \<Longrightarrow> py_range n = []"
  by (simp add: py_range_def)

lemma digits_nonempty: "digits n \<noteq> []"
  by (subst digits.simps) simp

lemma str_int_nonempty: "str_int n \<noteq> []"
  by (simp add: str_int_def digits_nonempty)

section \<open>The growable array\<close>

text \<open>
  Claim C6. A growable-array provider built from the stored length \<open>L\<close> and the unwrapped
  data pointer \<open>p\<close> has the summary \<open>size=L\<close>, and its children are exactly \<open>L\<close> entries
  (\<open>nat L\<close>: none for a length that is not positive), the \<open>i\<close>-th keyed \<open>[i]\<close> and
  holding the dereference of \<open>p + i\<close>, in ascending index order.
\<close>

theorem StdVecProvider_spec:
  "StdVecProvider_to_string (StdVecProvider_init L p) = Inr (''size='' @ str_int L) \<and>
   (\<exists>cs. StdVecProvider_children (StdVecProvider_init L p) = Inr cs \<and>
      length cs = nat L \<and>
      cs = map (\<lambda>i. (''['' @ str_int i @ '']'', dereference (ptr_add p i))) (py_range L) \<and>
      (\<forall>i. 0 \<le> i \<and> i < L \<longrightarrow>
         cs ! nat i = (''['' @ str_int i @ '']'', dereference (ptr_add p i))))"
proof -
  let ?g = "\<lambda>i. (''['' @ str_int i @ '']'', dereference (ptr_add p i))"
  have s: "StdVecProvider_to_string (StdVecProvider_init L p) = Inr (''size='' @ str_int L)"
    by (simp add: StdVecProvider_to_string_def StdVecProvider_init_def)
  have c: "StdVecProvider_children (StdVecProvider_init L p) = Inr (map ?g (py_range L))"
    unfolding StdVecProvider_children_def
    by (simp add: StdVecProvider_init_def for_yield_singletons)
  have n: "\<forall>i. 0 \<le> i \<and> i < L \<longrightarrow> map ?g (py_range L) ! nat i = ?g i"
    by (simp add: length_py_range nth_py_range)
  from s c n show ?thesis by (simp add: length_py_range)
qed

text \<open>The round trip of the specification: length 3 over the backing values 10, 20, 30.\<close>

theorem StdVecProvider_spec_witness:
  "StdVecProvider_to_string (StdVecProvider_init 3 \<lparr>mem = (\<lambda>i. [10, 20, 30 :: int] ! nat i), pos = 0\<rparr>)
     = Inr ''size=3'' \<and>
   StdVecProvider_children (StdVecProvider_init 3 \<lparr>mem = (\<lambda>i. [10, 20, 30 :: int] ! nat i), pos = 0\<rparr>)
     = Inr [(''[0]'', 10), (''[1]'', 20), (''[2]'', 30)]"
  using StdVecProvider_spec [of 3 "\<lparr>mem = (\<lambda>i. [10, 20, 30 :: int] ! nat i), pos = 0\<rparr>"]
  by (auto simp add: py_range_def upto.simps str_int_def digits.simps digit_char_def dereference_def ptr_add_def)

section \<open>The ring buffer\<close>

text \<open>
  Claim C4. A ring-buffer provider built from head \<open>h\<close>, tail \<open>t\<close> and capacity \<open>C\<close> has
  the size \<open>h - t\<close> when \<open>h \<ge> t\<close> and \<open>C + h - t\<close> otherwise; its \<open>i\<close>-th child, for every
  \<open>i\<close> from 0 below the size, is keyed \<open>[i]\<close> and read from slot \<open>(t + i) mod C\<close> of the
  backing buffer. The capacity is not zero, so that the slot index is defined (the
  empty buffer of any capacity is claim C10).
\<close>

theorem StdVecDequeProvider_spec:
  assumes "C \<noteq> 0"
  shows "deque_size (StdVecDequeProvider_init h t C p) = (if h \<ge> t then h - t else C + h - t) \<and>
    (\<exists>cs. StdVecDequeProvider_children (StdVecDequeProvider_init h t C p) = Inr cs \<and>
       length cs = nat (deque_size (StdVecDequeProvider_init h t C p)) \<and>
       (\<forall>i. 0 \<le> i \<and> i < deque_size (StdVecDequeProvider_init h t C p) \<longrightarrow>
          cs ! nat i = (''['' @ str_int i @ '']'', dereference (ptr_add p ((t + i) mod C)))))"
proof -
  let ?self = "StdVecDequeProvider_init h t C p"
  let ?g = "\<lambda>i. (''['' @ str_int i @ '']'', dereference (ptr_add p ((t + i) mod C)))"
  have sz: "deque_size ?self = (if h \<ge> t then h - t else C + h - t)"
    by (simp add: StdVecDequeProvider_init_def)
  have fields: "deque_tail ?self = t" "deque_cap ?self = C" "deque_data_ptr ?self = p"
    by (simp_all add: StdVecDequeProvider_init_def)
  have c: "StdVecDequeProvider_children ?self = Inr (map ?g (py_range (deque_size ?self)))"
    unfolding StdVecDequeProvider_children_def fields
    using assms by (simp add: for_yield_singletons py_mod_def)
  have n: "\<forall>i. 0 \<le> i \<and> i < deque_size ?self \<longrightarrow> map ?g (py_range (deque_size ?self)) ! nat i = ?g i"
    by (simp add: length_py_range nth_py_range)
  from sz c n show ?thesis by (simp add: length_py_range)
qed

text \<open>The round trip of the specification: capacity 4, head 1, tail 3 over the slots
  A, B, C, D gives size 2 and the elements of slots 3 and 0, in that order.\<close>

theorem StdVecDequeProvider_spec_witness:
  "(4::int) \<noteq> 0 \<and>
   deque_size (StdVecDequeProvider_init 1 3 4 \<lparr>mem = (\<lambda>i. [''A'', ''B'', ''C'', ''D''] ! nat i), pos = 0\<rparr>) = 2 \<and>
   StdVecDequeProvider_children
     (StdVecDequeProvider_init 1 3 4 \<lparr>mem = (\<lambda>i. [''A'', ''B'', ''C'', ''D''] ! nat i), pos = 0\<rparr>)
     = Inr [(''[0]'', ''D''), (''[1]'', ''A'')]"
proof -
  let ?p = "\<lparr>mem = (\<lambda>i. [''A'', ''B'', ''C'', ''D''] ! nat i), pos = 0::int\<rparr>"
  have nz: "(4::int) \<noteq> 0" by simp
  from StdVecDequeProvider_spec [OF nz, of 1 3 ?p]
  obtain cs where sz: "deque_size (StdVecDequeProvider_init 1 3 4 ?p) = 2"
    and c: "StdVecDequeProvider_children (StdVecDequeProvider_init 1 3 4 ?p) = Inr cs"
    and l: "length cs = 2"
    and n: "\<forall>i. 0 \<le> i \<and> i < 2 \<longrightarrow>
          cs ! nat i = (''['' @ str_int i @ '']'', dereference (ptr_add ?p ((3 + i) mod 4)))"
    by auto
  from n [rule_format, of 0] have c0: "cs ! 0 = (''[0]'', ''D'')"
    by (simp add: str_int_def digits.simps digit_char_def dereference_def ptr_add_def)
  from n [rule_format, of 1] have c1: "cs ! 1 = (''[1]'', ''A'')"
    by (simp add: str_int_def digits.simps digit_char_def dereference_def ptr_add_def)
  from l c0 c1 have "cs = [(''[0]'', ''D''), (''[1]'', ''A'')]"
    by (cases cs; cases "tl cs"; auto)
  with sz c nz show ?thesis by simp
qed

text \<open>
  Claim C10. A ring-buffer provider whose size is 0 (or below) yields no child and
  raises nothing: the loop body, and with it the modulo by the capacity, is never run.
  Equal head and tail give size 0 for every capacity, the capacity 0 included.
\<close>

theorem StdVecDequeProvider_empty:
  "(deque_size self \<le> 0 \<longrightarrow> StdVecDequeProvider_children self = Inr []) \<and>
   deque_size (StdVecDequeProvider_init h h C p) = 0 \<and>
   StdVecDequeProvider_children (StdVecDequeProvider_init h h 0 p) = Inr []"
  by (simp add: StdVecDequeProvider_children_def py_range_nonpos StdVecDequeProvider_init_def)

theorem StdVecDequeProvider_empty_witness:
  "deque_size (StdVecDequeProvider_init 5 5 0 \<lparr>mem = (\<lambda>i. ''x''), pos = 0\<rparr>) = 0 \<and>
   StdVecDequeProvider_children (StdVecDequeProvider_init 5 5 0 \<lparr>mem = (\<lambda>i. ''x''), pos = 0\<rparr>) = Inr []"
  using StdVecDequeProvider_empty [of "StdVecDequeProvider_init 5 5 0 \<lparr>mem = (\<lambda>i. ''x''), pos = 0\<rparr>" 5 0 "\<lparr>mem = (\<lambda>i. ''x''), pos = 0\<rparr>"]
  by (simp add: StdVecDequeProvider_init_def)

section \<open>The reference-counted boxes\<close>

lemma uint_pred: "W \<noteq> 0 \<Longrightarrow> uint (W - 1 :: usize) = uint W - 1"
proof -
  assume nz: "W \<noteq> 0"
  have "0 \<le> uint W" by simp
  moreover from nz have "uint W \<noteq> 0" by (simp only: uint_0_iff not_False_eq_True)
  ultimately have "1 \<le> uint W" by linarith
  then have "uint (1::usize) \<le> uint W" by (simp only: uint_1)
  then have "uint (W - 1) = uint W - uint (1::usize)" by (simp only: uint_sub_lem)
  then show ?thesis by (simp only: uint_1)
qed

lemma strong_weak_format:
  "str_format ''strong={}, weak={}'' [a, b] = Inr (''strong='' @ a @ '', weak='' @ b)"
  by simp

text \<open>
  Claim C7. For a reference-counted box of either flavour (plain, read with
  \<open>is_atomic = False\<close>, and atomic, read with \<open>is_atomic = True\<close>) whose control block
  stores the strong count \<open>S\<close> and the weak field \<open>W\<close>, the displayed strong count is \<open>S\<close>,
  the displayed weak count is \<open>W - 1\<close>, the summary is \<open>strong=S, weak=W-1\<close> and the
  children are the payload, the strong count and the weak count, in that order. The
  weak field of a live box is not zero: it counts the implicit weak reference that the
  strong references hold together.
\<close>

theorem StdRcProvider_spec:
  assumes "(block, is_atomic) = (RcBox S W v, False) \<or> (block, is_atomic) = (ArcInner S W v, True)"
    and "W \<noteq> 0"
  shows "\<exists>self. StdRcProvider_init block is_atomic = Inr self \<and>
           uint (rc_strong self) = uint S \<and>
           uint (rc_weak self) = uint W - 1 \<and>
           StdRcProvider_to_string self =
             Inr (''strong='' @ str_int (uint S) @ '', weak='' @ str_int (uint W - 1)) \<and>
           StdRcProvider_children self =
             [(''value'', Payload v), (''strong'', Counter S), (''weak'', Counter (W - 1))]"
proof -
  let ?self = "\<lparr>rc_value = v, rc_strong = S, rc_weak = W - 1\<rparr>"
  from assms(1) have i: "StdRcProvider_init block is_atomic = Inr ?self"
    by auto
  have w: "uint (rc_weak ?self) = uint W - 1"
    using assms(2) by (simp add: uint_pred)
  have s: "StdRcProvider_to_string ?self =
      Inr (''strong='' @ str_int (uint S) @ '', weak='' @ str_int (uint W - 1))"
    unfolding StdRcProvider_to_string_def strong_weak_format using w by simp
  have c: "StdRcProvider_children ?self =
      [(''value'', Payload v), (''strong'', Counter S), (''weak'', Counter (W - 1))]"
    by (simp add: StdRcProvider_children_def)
  from i w s c show ?thesis by simp
qed

theorem StdRcProvider_spec_witness:
  "(\<exists>self. StdRcProvider_init (RcBox 2 3 ''payload'') False = Inr self \<and>
      uint (rc_weak self) = 2 \<and>
      StdRcProvider_to_string self = Inr ''strong=2, weak=2'' \<and>
      StdRcProvider_children self =
        [(''value'', Payload ''payload''), (''strong'', Counter 2), (''weak'', Counter 2)]) \<and>
   (\<exists>self. StdRcProvider_init (ArcInner 1 1 ''payload'') True = Inr self \<and>
      uint (rc_weak self) = 0 \<and>
      StdRcProvider_to_string self = Inr ''strong=1, weak=0'')"
proof -
  have a: "(RcBox 2 3 ''payload'', False) = (RcBox (2::usize) 3 ''payload'', False) \<or>
           (RcBox 2 3 ''payload'', False) = (ArcInner (2::usize) 3 ''payload'', True)" by simp
  have b: "(ArcInner 1 1 ''payload'', True) = (RcBox (1::usize) 1 ''payload'', False) \<or>
           (ArcInner 1 1 ''payload'', True) = (ArcInner (1::usize) 1 ''payload'', True)" by simp
  have n3: "(3::usize) \<noteq> 0" by simp
  have n1: "(1::usize) \<noteq> 0" by simp
  have d: "str_int 0 = ''0''" "str_int 1 = ''1''" "str_int 2 = ''2''"
    by (simp_all add: str_int_def digits.simps digit_char_def)
  from StdRcProvider_spec [OF a n3] StdRcProvider_spec [OF b n1] d
  show ?thesis by simp
qed

section \<open>The borrow-tracking cell and its guard\<close>

text \<open>
  Claim C8. For the borrow-tracking cell and for its guard, with the stored counter
  \<open>n\<close>: the summary is \<open>borrow=n\<close> when \<open>n \<ge> 0\<close> and \<open>borrow_mut=-n\<close> when \<open>n < 0\<close>.
  Exactly one of the two cases holds for every integer, and no summary of the first
  form is one of the second.
\<close>

theorem borrow_summary_spec:
  "(0 \<le> n \<longrightarrow>
      StdRefCellProvider_to_string \<lparr>refcell_value = v, refcell_borrow = n\<rparr> = Inr (''borrow='' @ str_int n) \<and>
      StdRefProvider_to_string \<lparr>ref_value = v, ref_borrow = n\<rparr> = Inr (''borrow='' @ str_int n)) \<and>
   (n < 0 \<longrightarrow>
      StdRefCellProvider_to_string \<lparr>refcell_value = v, refcell_borrow = n\<rparr> = Inr (''borrow_mut='' @ str_int (- n)) \<and>
      StdRefProvider_to_string \<lparr>ref_value = v, ref_borrow = n\<rparr> = Inr (''borrow_mut='' @ str_int (- n))) \<and>
   ((0 \<le> n) \<noteq> (n < 0)) \<and>
   ''borrow='' @ str_int a \<noteq> ''borrow_mut='' @ str_int b"
proof -
  have p: "0 \<le> n \<longrightarrow>
      StdRefCellProvider_to_string \<lparr>refcell_value = v, refcell_borrow = n\<rparr> = Inr (''borrow='' @ str_int n) \<and>
      StdRefProvider_to_string \<lparr>ref_value = v, ref_borrow = n\<rparr> = Inr (''borrow='' @ str_int n)"
    by (simp add: StdRefCellProvider_to_string_def StdRefProvider_to_string_def)
  have m: "n < 0 \<longrightarrow>
      StdRefCellProvider_to_string \<lparr>refcell_value = v, refcell_borrow = n\<rparr> = Inr (''borrow_mut='' @ str_int (- n)) \<and>
      StdRefProvider_to_string \<lparr>ref_value = v, ref_borrow = n\<rparr> = Inr (''borrow_mut='' @ str_int (- n))"
    by (simp add: StdRefCellProvider_to_string_def StdRefProvider_to_string_def)
  have x: "(0 \<le> n) \<noteq> (n < 0)" by linarith
  have d: "''borrow='' @ str_int a \<noteq> ''borrow_mut='' @ str_int b" by simp
  from p m x d show ?thesis by blast
qed

theorem borrow_summary_spec_witness:
  "StdRefCellProvider_to_string \<lparr>refcell_value = ''x'', refcell_borrow = 2\<rparr> = Inr ''borrow=2'' \<and>
   StdRefProvider_to_string \<lparr>ref_value = ''x'', ref_borrow = 2\<rparr> = Inr ''borrow=2'' \<and>
   StdRefCellProvider_to_string \<lparr>refcell_value = ''x'', refcell_borrow = - 1\<rparr> = Inr ''borrow_mut=1'' \<and>
   StdRefProvider_to_string \<lparr>ref_value = ''x'', ref_borrow = - 1\<rparr> = Inr ''borrow_mut=1''"
proof -
  have d: "str_int 1 = ''1''" "str_int 2 = ''2''"
    by (simp_all add: str_int_def digits.simps digit_char_def)
  from borrow_summary_spec [of 2 "''x''" 0 0] borrow_summary_spec [of "- 1" "''x''" 0 0] d
  show ?thesis by simp
qed

section \<open>The summaries of the B-tree containers\<close>

text \<open>
  Claim C2 says that the summary of the ordered set and of the ordered map is
  \<open>size=n\<close> for the top-level length \<open>n\<close>. The template of both \<open>to_string\<close> methods has
  no field, so the count given to \<open>format\<close> is dropped: the summary is \<open>size=\<close> for
  every \<open>n\<close>, which is never \<open>size=n\<close>.
\<close>

theorem StdBTree_to_string_drops_count:
  "StdBTreeSetProvider_to_string n = Inr ''size='' \<and>
   StdBTreeMapProvider_to_string n = Inr ''size='' \<and>
   ''size='' \<noteq> ''size='' @ str_int n"
  using str_int_nonempty [of n]
  by (simp add: StdBTreeSetProvider_to_string_def StdBTreeMapProvider_to_string_def)

section \<open>The enum provider\<close>

lemma variant_format: "str_format ''{}::{}'' [a, b] = Inr (a @ ''::'' @ b)"
  by simp

lemma py_getitem_nonneg:
  "0 \<le> i \<Longrightarrow> i < int (length xs) \<Longrightarrow> py_getitem xs i = Inr (xs ! nat i)"
  by (simp add: py_getitem_def)

lemma EnumProvider_init_empty:
  "EnumProvider_init (Struct tn ((f0, Struct cn []) # rest)) =
     Inr \<lparr>enum_empty = True, enum_active_variant = None, enum_name = None, enum_full_name = tn\<rparr>"
  by (simp add: EnumProvider_init_def py_getitem_def)

lemma EnumProvider_init_single:
  "EnumProvider_init (Struct tn ((f0, Struct cn [(name, v)]) # rest)) =
     Inr \<lparr>enum_empty = False, enum_active_variant = Some v, enum_name = Some name,
          enum_full_name = tn @ ''::'' @ name\<rparr>"
  by (simp add: EnumProvider_init_def py_getitem_def)

lemma EnumProvider_init_tagged:
  assumes "1 < length fs" and "py_int (snd (fs ! 0)) = Inr d"
    and "0 \<le> d + 1" and "d + 1 < int (length fs)"
  shows "EnumProvider_init (Struct tn ((f0, Struct cn fs) # rest)) =
     Inr \<lparr>enum_empty = False, enum_active_variant = Some (snd (fs ! nat (d + 1))),
          enum_name = Some (fst (fs ! nat (d + 1))),
          enum_full_name = tn @ ''::'' @ fst (fs ! nat (d + 1))\<rparr>"
proof -
  from assms(1) have g0: "py_getitem fs 0 = Inr (fs ! 0)"
    by (auto simp add: py_getitem_def)
  from assms(3,4) have gd: "py_getitem fs (d + 1) = Inr (fs ! nat (d + 1))"
    by (rule py_getitem_nonneg)
  have o: "py_getitem ((f0, Struct cn fs) # rest) 0 = Inr (f0, Struct cn fs)"
    by (simp add: py_getitem_def)
  from assms(1) have ne: "length fs \<noteq> 0" "length fs \<noteq> 1" by auto
  show ?thesis
    unfolding EnumProvider_init_def
    by (simp only: type_fields.simps sum.case o Let_def snd_conv ne if_True if_False
        not_False_eq_True g0 assms(2) gd variant_format type_name.simps)
qed


text \<open>
  Claim C9. For an enum value whose first field (the content) has the sub-fields \<open>fs\<close>:
  with no sub-field the summary is the type name alone and there is no child; with
  exactly one sub-field the active variant is that one (discriminant 0); otherwise the
  discriminant is \<open>int(first sub-field) + 1\<close> and the active variant is the sub-field at
  that slot. In both non-empty cases the summary is \<open>type::variant\<close> and the only child
  is the active variant's payload keyed by the variant's name.
\<close>

theorem EnumProvider_spec:
  assumes "valobj = Struct tn ((f0, Struct cn fs) # rest)"
  shows
    "(fs = [] \<longrightarrow>
        (\<exists>self. EnumProvider_init valobj = Inr self \<and>
           EnumProvider_to_string self = tn \<and> EnumProvider_children self = Inr [])) \<and>
     (\<forall>name v. fs = [(name, v)] \<longrightarrow>
        (\<exists>self. EnumProvider_init valobj = Inr self \<and>
           enum_active_variant self = Some (snd (fs ! 0)) \<and>
           EnumProvider_to_string self = tn @ ''::'' @ name \<and>
           EnumProvider_children self = Inr [(name, v)])) \<and>
     (\<forall>d. 1 < length fs \<and> py_int (snd (fs ! 0)) = Inr d \<and> 0 \<le> d + 1 \<and> d + 1 < int (length fs) \<longrightarrow>
        (\<exists>self. EnumProvider_init valobj = Inr self \<and>
           enum_active_variant self = Some (snd (fs ! nat (d + 1))) \<and>
           EnumProvider_to_string self = tn @ ''::'' @ fst (fs ! nat (d + 1)) \<and>
           EnumProvider_children self = Inr [fs ! nat (d + 1)]))"
proof (intro conjI allI impI)
  assume "fs = []"
  with assms show "\<exists>self. EnumProvider_init valobj = Inr self \<and>
           EnumProvider_to_string self = tn \<and> EnumProvider_children self = Inr []"
    by (simp add: EnumProvider_init_empty EnumProvider_to_string_def EnumProvider_children_def)
next
  fix name v
  assume "fs = [(name, v)]"
  with assms show "\<exists>self. EnumProvider_init valobj = Inr self \<and>
           enum_active_variant self = Some (snd (fs ! 0)) \<and>
           EnumProvider_to_string self = tn @ ''::'' @ name \<and>
           EnumProvider_children self = Inr [(name, v)]"
    by (simp add: EnumProvider_init_single EnumProvider_to_string_def EnumProvider_children_def)
next
  fix d
  assume h: "1 < length fs \<and> py_int (snd (fs ! 0)) = Inr d \<and> 0 \<le> d + 1 \<and> d + 1 < int (length fs)"
  then have "EnumProvider_init (Struct tn ((f0, Struct cn fs) # rest)) =
     Inr \<lparr>enum_empty = False, enum_active_variant = Some (snd (fs ! nat (d + 1))),
          enum_name = Some (fst (fs ! nat (d + 1))),
          enum_full_name = tn @ ''::'' @ fst (fs ! nat (d + 1))\<rparr>"
    by (intro EnumProvider_init_tagged) simp_all
  with assms show "\<exists>self. EnumProvider_init valobj = Inr self \<and>
           enum_active_variant self = Some (snd (fs ! nat (d + 1))) \<and>
           EnumProvider_to_string self = tn @ ''::'' @ fst (fs ! nat (d + 1)) \<and>
           EnumProvider_children self = Inr [fs ! nat (d + 1)]"
    by (simp add: EnumProvider_to_string_def EnumProvider_children_def)
qed

theorem EnumProvider_spec_witness:
  "(\<exists>self. EnumProvider_init (Struct ''Never'' [(''RUST$ENUM'', Struct ''U'' [])]) = Inr self \<and>
      EnumProvider_to_string self = ''Never'' \<and> EnumProvider_children self = Inr []) \<and>
   (\<exists>self. EnumProvider_init (Struct ''Wrap'' [(''RUST$ENUM'', Struct ''U'' [(''Only'', Scalar ''u8'' 7)])])
        = Inr self \<and>
      enum_active_variant self = Some (Scalar ''u8'' 7) \<and>
      EnumProvider_to_string self = ''Wrap::Only'' \<and>
      EnumProvider_children self = Inr [(''Only'', Scalar ''u8'' 7)]) \<and>
   (\<exists>self. EnumProvider_init
        (Struct ''Opt'' [(''RUST$ENUM'', Struct ''U''
           [(''tag'', Scalar ''u8'' 1), (''None'', Struct ''None'' []), (''Some'', Scalar ''i32'' 5)])])
        = Inr self \<and>
      enum_active_variant self = Some (Scalar ''i32'' 5) \<and>
      EnumProvider_to_string self = ''Opt::Some'' \<and>
      EnumProvider_children self = Inr [(''Some'', Scalar ''i32'' 5)])"
  using
    EnumProvider_spec [of "Struct ''Never'' [(''RUST$ENUM'', Struct ''U'' [])]"
      "''Never''" "''RUST$ENUM''" "''U''" "[]" "[]"]
    EnumProvider_spec [of "Struct ''Wrap'' [(''RUST$ENUM'', Struct ''U'' [(''Only'', Scalar ''u8'' 7)])]"
      "''Wrap''" "''RUST$ENUM''" "''U''" "[(''Only'', Scalar ''u8'' 7)]" "[]"]
    EnumProvider_spec [of "Struct ''Opt'' [(''RUST$ENUM'', Struct ''U''
           [(''tag'', Scalar ''u8'' 1), (''None'', Struct ''None'' []), (''Some'', Scalar ''i32'' 5)])]"
      "''Opt''" "''RUST$ENUM''" "''U''"
      "[(''tag'', Scalar ''u8'' 1), (''None'', Struct ''None'' []), (''Some'', Scalar ''i32'' 5)]" "[]"]
  by simp

section \<open>The hash tables\<close>

text \<open>The current layout: a bucket is listed as occupied exactly when the high bit of
  its control byte is clear and its index is below the capacity \<open>bucket_mask + 1\<close>;
  with a size equal to the number of listed buckets, the children are read at the listed
  buckets only, one entry for each, and there is none for size 0.\<close>

lemma high_bit_clear: "(w AND 128 = 0) = (\<not> bit (w :: 8 word) 7)"
  using and_exp_eq_0_iff_not_bit [of w 7] by simp

lemma pair_children_Inr:
  "pair_children sv index e =
     Inr (if sv then [(''key'' @ str_int index, Inl (fst e)), (''val'' @ str_int index, Inr (snd e))]
          else [(''['' @ str_int index @ '']'', Inl (fst e))])"
  by (simp add: pair_children_def)

lemma StdHashMapProvider_valid_indices:
  "set (hm_valid_indices (StdHashMapProvider_init sv bm ctrl items dp)) =
     {idx. 0 \<le> idx \<and> idx < bm + 1 \<and> \<not> bit (dereference (ptr_add ctrl idx)) 7}"
  by (auto simp add: StdHashMapProvider_init_def Let_def py_range_def high_bit_clear)

lemma StdHashMapProvider_children_consistent:
  assumes "hm_size self = int (length (hm_valid_indices self))"
  shows "StdHashMapProvider_children self =
     Inr (concat (map (\<lambda>index.
        let e = dereference (ptr_add (hm_data_ptr self) (hm_valid_indices self ! nat index))
        in if hm_show_values self
           then [(''key'' @ str_int index, Inl (fst e)), (''val'' @ str_int index, Inr (snd e))]
           else [(''['' @ str_int index @ '']'', Inl (fst e))])
       (py_range (hm_size self))))"
  unfolding StdHashMapProvider_children_def Let_def
proof (rule for_yield_Inr)
  fix i assume "i \<in> set (py_range (hm_size self))"
  then have r: "0 \<le> i" "i < int (length (hm_valid_indices self))"
    using assms by (simp_all add: py_range_def)
  then have "py_getitem (hm_valid_indices self) i = Inr (hm_valid_indices self ! nat i)"
    by (simp add: py_getitem_def)
  then show "(case py_getitem (hm_valid_indices self) i of Inl e \<Rightarrow> Inl e
        | Inr idx \<Rightarrow> pair_children (hm_show_values self) i (dereference (ptr_add (hm_data_ptr self) idx))) =
       Inr (if hm_show_values self
            then [(''key'' @ str_int i, Inl (fst (dereference (ptr_add (hm_data_ptr self) (hm_valid_indices self ! nat i))))),
                  (''val'' @ str_int i, Inr (snd (dereference (ptr_add (hm_data_ptr self) (hm_valid_indices self ! nat i)))))]
            else [(''['' @ str_int i @ '']'', Inl (fst (dereference (ptr_add (hm_data_ptr self) (hm_valid_indices self ! nat i)))))])"
    by (simp add: pair_children_Inr)
qed

lemma StdHashMapProvider_children_empty:
  "hm_size self = 0 \<Longrightarrow> StdHashMapProvider_children self = Inr []"
  by (simp add: StdHashMapProvider_children_def py_range_def)

text \<open>The legacy layout: the capacity is \<open>capacity_mask + 1\<close> reduced modulo
  \<open>2 ** sizeof\<close>, which is \<open>capacity_mask + 1\<close> only below that modulus.\<close>

lemma StdOldHashMapProvider_capacity:
  "ohm_capacity (StdOldHashMapProvider_init sv sz hs dp hw m pts pa) = (m + 1) mod 2 ^ nat hs"
  by (simp add: StdOldHashMapProvider_init_def Let_def)

lemma StdOldHashMapProvider_capacity_small:
  "0 \<le> m \<Longrightarrow> m + 1 < 2 ^ nat hs \<Longrightarrow>
   ohm_capacity (StdOldHashMapProvider_init sv sz hs dp hw m pts pa) = m + 1"
  by (simp add: StdOldHashMapProvider_capacity)

text \<open>
  Claim C3 says that the capacity the legacy provider derives and scans is
  \<open>capacity_mask + 1\<close> for every mask, 255 and above included. The provider reduces
  \<open>capacity_mask + 1\<close> modulo \<open>2 ** sizeof\<close>, with the size of the hash word in bytes
  where the wrap-around of the machine word needs its size in bits. With 8-byte hash
  words the modulus is 256: a table of 256 buckets (mask 255) gets capacity 0, and no
  bucket is scanned, whatever the memory holds.
\<close>

theorem StdOldHashMapProvider_capacity_truncated:
  "ohm_capacity (StdOldHashMapProvider_init sv sz 8 dp hw 255 pts pa) = 0 \<and>
   ohm_capacity (StdOldHashMapProvider_init sv sz 8 dp hw 255 pts pa) \<noteq> 255 + 1 \<and>
   ohm_valid_indices (StdOldHashMapProvider_init sv sz 8 dp hw 255 pts pa) = []"
  by (simp add: StdOldHashMapProvider_init_def Let_def py_range_def)

text \<open>
  Claim C5 says, for both layouts and a table whose stored size is the number of its
  occupied buckets, that the list of occupied indices is as long as the size and that
  the children are exactly that many entries. In the legacy layout the truncated
  capacity of claim C3 breaks it: a table of 256 buckets (mask 255, 8-byte hash words)
  with one occupied bucket, the first, and size 1 gets an empty list of occupied
  indices, and enumerating its children raises IndexError at the first index.
\<close>

theorem StdOldHashMapProvider_children_fail:
  "ohm_size (StdOldHashMapProvider_init True 1 8 4096 (\<lambda>a. if a = 4096 then 7 else 0) 255 16
      (\<lambda>a. (''k'', ''v''))) = 1 \<and>
   ohm_valid_indices (StdOldHashMapProvider_init True 1 8 4096 (\<lambda>a. if a = 4096 then 7 else 0) 255 16
      (\<lambda>a. (''k'', ''v''))) = [] \<and>
   StdOldHashMapProvider_children
     (StdOldHashMapProvider_init True 1 8 4096 (\<lambda>a. if a = 4096 then 7 else 0) 255 16
        (\<lambda>a. (''k'', ''v''))) = Inl IndexError"
  by (simp add: StdOldHashMapProvider_children_def StdOldHashMapProvider_init_def Let_def
      py_range_def py_getitem_def)

section \<open>The B-tree traversal\<close>

lemma concat_upt_Suc:
  "(\<And>i. i < n \<Longrightarrow> g i = f i) \<Longrightarrow> concat (map g [0..<n + 1]) = concat (map f [0..<n]) @ g n"
proof -
  assume a: "\<And>i. i < n \<Longrightarrow> g i = f i"
  have m: "map g [0..<n] = map f [0..<n]" by (rule map_cong) (simp_all add: a)
  show ?thesis by (simp add: m)
qed

lemma array_get_Inr: "i < length xs \<Longrightarrow> array_get xs i = Inr (xs ! i)"
  by (simp add: array_get_def)

lemma wf_node_child: "wf_node (Suc h) n \<Longrightarrow> i \<le> len n \<Longrightarrow> wf_node h (edges n ! i)"
proof -
  assume w: "wf_node (Suc h) n" and i: "i \<le> len n"
  then have l: "i < length (take (len n + 1) (edges n))" by simp
  from w have "list_all (wf_node h) (take (len n + 1) (edges n))" by simp
  with l have "wf_node h (take (len n + 1) (edges n) ! i)" by (simp only: list_all_length)
  with i show ?thesis by simp
qed

lemma children_of_node_leaf:
  assumes "wf_node 0 n"
  shows "children_of_node n 0 wv = Inr (inorder_entries wv 0 n)"
proof -
  let ?g = "\<lambda>i. if i < len n then [own_entry wv n i] else []"
  have "children_of_node n 0 wv = Inr (concat (map ?g [0..<len n + 1]))"
    by (subst children_of_node.simps, rule for_yield_Inr)
      (use assms in \<open>auto simp add: array_get_Inr own_entry_def\<close>)
  also have "concat (map ?g [0..<len n + 1]) = concat (map (\<lambda>i. [own_entry wv n i]) [0..<len n]) @ ?g (len n)"
    by (rule concat_upt_Suc) simp
  finally show ?thesis by simp
qed

lemma children_of_node_internal:
  assumes w: "wf_node (Suc h) n"
    and ih: "\<And>i. i \<le> len n \<Longrightarrow> children_of_node (edges n ! i) h wv = Inr (inorder_entries wv h (edges n ! i))"
  shows "children_of_node n (Suc h) wv = Inr (inorder_entries wv (Suc h) n)"
proof -
  let ?sub = "\<lambda>i. inorder_entries wv h (edges n ! i)"
  let ?g = "\<lambda>i. ?sub i @ (if i < len n then [own_entry wv n i] else [])"
  have "children_of_node n (Suc h) wv = Inr (concat (map ?g [0..<len n + 1]))"
    by (subst children_of_node.simps, rule for_yield_Inr)
      (use w ih in \<open>auto simp add: array_get_Inr own_entry_def\<close>)
  also have "concat (map ?g [0..<len n + 1]) = concat (map (\<lambda>i. ?sub i @ [own_entry wv n i]) [0..<len n]) @ ?g (len n)"
    by (rule concat_upt_Suc) simp
  finally show ?thesis by simp
qed

lemma children_of_node_entries:
  "wf_node h n \<Longrightarrow> children_of_node n h wv = Inr (inorder_entries wv h n)"
proof (induction h arbitrary: n)
  case 0
  then show ?case by (rule children_of_node_leaf)
next
  case (Suc h)
  show ?case
  proof (rule children_of_node_internal)
    show "wf_node (Suc h) n" by (rule Suc.prems)
  next
    fix i assume "i \<le> len n"
    with Suc.prems have "wf_node h (edges n ! i)" by (rule wf_node_child)
    then show "children_of_node (edges n ! i) h wv = Inr (inorder_entries wv h (edges n ! i))"
      by (rule Suc.IH)
  qed
qed


lemma entry_key_own: "entry_key (own_entry wv n i) = keys n ! i"
  by (simp add: own_entry_def)

lemma take_as_map_nth: "m \<le> length xs \<Longrightarrow> map (\<lambda>i. xs ! i) [0..<m] = take m xs"
  by (simp add: list_eq_iff_nth_eq)

lemma inorder_entries_keys:
  "wf_node h n \<Longrightarrow> map entry_key (inorder_entries wv h n) = inorder h n"
proof (induction h arbitrary: n)
  case 0
  then show ?case by (simp add: entry_key_own comp_def take_as_map_nth)
next
  case (Suc h)
  have sub: "\<And>i. i \<le> len n \<Longrightarrow>
      map entry_key (inorder_entries wv h (edges n ! i)) = inorder h (edges n ! i)"
    using Suc.prems by (intro Suc.IH wf_node_child)
  have m: "map (\<lambda>x. map entry_key (inorder_entries wv h (edges n ! x)) @ [keys n ! x]) [0..<len n]
      = map (\<lambda>i. inorder h (edges n ! i) @ [keys n ! i]) [0..<len n]"
    by (rule map_cong [OF refl]) (simp add: sub)
  show ?case
    by (simp add: map_concat comp_def entry_key_own m sub)
qed

lemma set_take_edges:
  "m < length xs \<Longrightarrow> set (take (Suc m) xs) = (\<lambda>i. xs ! i) ` {..m}"
  using nth_image [of "Suc m" xs] by (simp add: atLeast0LessThan lessThan_Suc_atMost)

lemma set_take_keys:
  "m \<le> length xs \<Longrightarrow> set (take m xs) = (\<lambda>i. xs ! i) ` {..<m}"
  using nth_image [of m xs] by (simp add: atLeast0LessThan)

lemma set_interleave:
  "set (concat (map (\<lambda>i. sub i @ [key i]) [0..<m]) @ sub m) =
     key ` {..<m} \<union> (\<Union>i\<in>{..m}. set (sub i))"
  by (induction m) (auto simp add: atMost_Suc lessThan_Suc)

lemma inorder_set:
  "wf_node h n \<Longrightarrow> set (inorder h n) = tree_keys h n"
proof (induction h arbitrary: n)
  case 0
  then show ?case by simp
next
  case (Suc h)
  have sub: "\<And>i. i \<le> len n \<Longrightarrow> set (inorder h (edges n ! i)) = tree_keys h (edges n ! i)"
    using Suc.prems by (intro Suc.IH wf_node_child)
  from Suc.prems have l: "len n \<le> length (keys n)" "len n < length (edges n)" by simp_all
  have "set (inorder (Suc h) n) =
      (\<lambda>i. keys n ! i) ` {..<len n} \<union> (\<Union>i\<in>{..len n}. set (inorder h (edges n ! i)))"
    using set_interleave [of "\<lambda>i. inorder h (edges n ! i)" "\<lambda>i. keys n ! i" "len n"]
    by (simp only: inorder.simps)
  also have "\<dots> = (\<lambda>i. keys n ! i) ` {..<len n} \<union> (\<Union>i\<in>{..len n}. tree_keys h (edges n ! i))"
    by (simp add: sub)
  also have "\<dots> = tree_keys (Suc h) n"
    by (simp add: set_take_keys [OF l(1)] set_take_edges [OF l(2)] image_image)
  finally show ?case .
qed


lemma interleave_sorted:
  fixes key :: "nat \<Rightarrow> 'a::linorder"
  assumes s: "\<And>i. i \<le> n \<Longrightarrow> sorted_wrt (<) (sub i)"
    and l: "\<And>i x. i < n \<Longrightarrow> x \<in> set (sub i) \<Longrightarrow> x < key i"
    and r: "\<And>i y. i < n \<Longrightarrow> y \<in> set (sub (Suc i)) \<Longrightarrow> key i < y"
    and k: "\<And>i j. i < j \<Longrightarrow> j < n \<Longrightarrow> key i < key j"
  shows "sorted_wrt (<) (concat (map (\<lambda>i. sub i @ [key i]) [0..<n]) @ sub n)"
proof -
  let ?P = "\<lambda>m. concat (map (\<lambda>i. sub i @ [key i]) [0..<m])"
  have kle: "key i \<le> key j" if "i \<le> j" "j < n" for i j
  proof (cases "i = j")
    case True then show ?thesis by simp
  next
    case False
    with that have "i < j" by simp
    then have "key i < key j" using that(2) by (rule k)
    then show ?thesis by simp
  qed
  have cross: "x < y" if "x \<le> key i" "i < m" "m \<le> n" "y \<in> set (sub m)" for x y i m
  proof -
    from that(2) obtain m' where m: "m = Suc m'" by (cases m) auto
    with that(2,3) have "i \<le> m'" "m' < n" by simp_all
    then have "key i \<le> key m'" by (rule kle)
    moreover from \<open>m' < n\<close> that(4) m have "key m' < y" by (simp add: r)
    ultimately show ?thesis using that(1) by simp
  qed
  have main: "m \<le> n \<Longrightarrow> sorted_wrt (<) (?P m) \<and> (\<forall>x\<in>set (?P m). \<exists>i<m. x \<le> key i)" for m
  proof (induction m)
    case 0
    show ?case by simp
  next
    case (Suc m)
    then have mn: "m < n" and ih: "sorted_wrt (<) (?P m)"
      and bd: "\<forall>x\<in>set (?P m). \<exists>i<m. x \<le> key i" by simp_all
    have own: "sorted_wrt (<) (sub m @ [key m])"
      using mn by (simp add: sorted_wrt_append s l)
    have step: "x < y" if "x \<in> set (?P m)" "y \<in> set (sub m @ [key m])" for x y
    proof -
      from bd that(1) obtain i where i: "i < m" "x \<le> key i" by blast
      show ?thesis
      proof (cases "y = key m")
        case True
        from i(1) mn have "key i < key m" by (rule k)
        with i(2) True show ?thesis by simp
      next
        case False
        with that(2) have "y \<in> set (sub m)" by simp
        with i mn show ?thesis by (intro cross [of x i m y]) simp_all
      qed
    qed
    have srt: "sorted_wrt (<) (?P (Suc m))"
      using ih own step by (simp add: sorted_wrt_append del: append_assoc)
    have bnd: "\<forall>x\<in>set (?P (Suc m)). \<exists>i<Suc m. x \<le> key i"
    proof
      fix x assume "x \<in> set (?P (Suc m))"
      then consider "x \<in> set (?P m)" | "x \<in> set (sub m)" | "x = key m" by auto
      then show "\<exists>i<Suc m. x \<le> key i"
      proof cases
        case 1
        with bd obtain i where "i < m" "x \<le> key i" by blast
        then show ?thesis by (intro exI [of _ i]) simp
      next
        case 2
        with mn have "x < key m" by (rule l)
        then show ?thesis by (intro exI [of _ m]) simp
      next
        case 3
        then show ?thesis by (intro exI [of _ m]) simp
      qed
    qed
    from srt bnd show ?case by blast
  qed
  from main [of n] have a: "sorted_wrt (<) (?P n)" and b: "\<forall>x\<in>set (?P n). \<exists>i<n. x \<le> key i"
    by simp_all
  have "x < y" if "x \<in> set (?P n)" "y \<in> set (sub n)" for x y
  proof -
    from b that(1) obtain i where "i < n" "x \<le> key i" by blast
    with that(2) show ?thesis by (intro cross [of x i n y]) simp_all
  qed
  with a s [of n] show ?thesis by (simp add: sorted_wrt_append)
qed


lemma ordered_child: "ordered (Suc h) n \<Longrightarrow> i \<le> len n \<Longrightarrow> len n < length (edges n) \<Longrightarrow> ordered h (edges n ! i)"
proof -
  assume w: "ordered (Suc h) n" and i: "i \<le> len n" and e: "len n < length (edges n)"
  then have l: "i < length (take (len n + 1) (edges n))" by simp
  from w have "list_all (ordered h) (take (len n + 1) (edges n))" by simp
  with l have "ordered h (take (len n + 1) (edges n) ! i)" by (simp only: list_all_length)
  with i show ?thesis by simp
qed

lemma ordered_at:
  assumes "ordered (Suc h) n" and "i < len n"
  shows "(\<forall>k\<in>set (inorder h (edges n ! i)). k < keys n ! i) \<and>
         (\<forall>k\<in>set (inorder h (edges n ! Suc i)). keys n ! i < k)"
proof -
  from assms(1) have "list_all (\<lambda>i. list_all (\<lambda>k. k < keys n ! i) (inorder h (edges n ! i)) \<and>
                    list_all (\<lambda>k. keys n ! i < k) (inorder h (edges n ! Suc i))) [0..<len n]"
    by simp
  with assms(2) show ?thesis by (simp add: list_all_iff)
qed

lemma inorder_sorted:
  "wf_node h n \<Longrightarrow> ordered h n \<Longrightarrow> sorted_wrt (<) (inorder h n)"
proof (induction h arbitrary: n)
  case 0
  then show ?case by simp
next
  case (Suc h)
  from Suc.prems(1) have ln: "len n \<le> length (keys n)" "len n < length (edges n)" by simp_all
  from Suc.prems(2) have sk: "sorted_wrt (<) (take (len n) (keys n))" by simp
  have "sorted_wrt (<) (concat (map (\<lambda>i. inorder h (edges n ! i) @ [keys n ! i]) [0..<len n])
      @ inorder h (edges n ! len n))"
  proof (rule interleave_sorted)
    fix i assume i: "i \<le> len n"
    with Suc.prems(1) have "wf_node h (edges n ! i)" by (rule wf_node_child)
    moreover from Suc.prems(2) i ln(2) have "ordered h (edges n ! i)" by (rule ordered_child)
    ultimately show "sorted_wrt (<) (inorder h (edges n ! i))" by (rule Suc.IH)
  next
    fix i x assume "i < len n" "x \<in> set (inorder h (edges n ! i))"
    with ordered_at [OF Suc.prems(2), of i] show "x < keys n ! i" by simp
  next
    fix i y assume "i < len n" "y \<in> set (inorder h (edges n ! Suc i))"
    with ordered_at [OF Suc.prems(2), of i] show "keys n ! i < y" by simp
  next
    fix i j :: nat assume ij: "i < j" "j < len n"
    with ln(1) have "j < length (take (len n) (keys n))" by simp
    with sk ij(1) have "take (len n) (keys n) ! i < take (len n) (keys n) ! j"
      by (rule sorted_wrt_nth_less)
    with ij show "keys n ! i < keys n ! j" by simp
  qed
  then show ?case by simp
qed

lemma strictly_sorted_is_sorted_list_of_set:
  "sorted_wrt (<) (xs :: 'a::linorder list) \<Longrightarrow> xs = sorted_list_of_set (set xs)"
  by (simp add: strict_sorted_iff sorted_list_of_set.idem_if_sorted_distinct)


text \<open>
  Claim C1. For every well-formed B-tree of every height (0 for a single leaf, 1, 2 and
  above) the traversal \<open>children_of_node\<close> returns, and what it yields is the in-order
  listing of the tree: for each \<open>i\<close> from 0 to \<open>len\<close> what child edge \<open>i\<close> yields (above the
  leaves) and then key \<open>i\<close> (with value \<open>i\<close> when values are wanted) when \<open>i < len\<close>. Its
  keys are exactly the keys of the tree, and for a tree in search-tree order (built
  from distinct keys \<open>k1 < ... < kn\<close>) they are \<open>k1, ..., kn\<close> in ascending order,
  whatever the shape of the tree.
\<close>

theorem children_of_node_inorder:
  assumes "wf_node h n"
  shows "\<exists>es. children_of_node n h want_values = Inr es \<and>
     es = inorder_entries want_values h n \<and>
     map entry_key es = inorder h n \<and>
     set (map entry_key es) = tree_keys h n \<and>
     (ordered h n \<longrightarrow> map entry_key es = sorted_list_of_set (tree_keys h n))"
proof -
  let ?es = "inorder_entries want_values h n"
  from assms have c: "children_of_node n h want_values = Inr ?es"
    by (rule children_of_node_entries)
  from assms have k: "map entry_key ?es = inorder h n"
    by (rule inorder_entries_keys)
  from assms have t: "set (inorder h n) = tree_keys h n"
    by (rule inorder_set)
  have o: "ordered h n \<longrightarrow> inorder h n = sorted_list_of_set (tree_keys h n)"
  proof
    assume "ordered h n"
    with assms have "sorted_wrt (<) (inorder h n)" by (rule inorder_sorted)
    then have "inorder h n = sorted_list_of_set (set (inorder h n))"
      by (rule strictly_sorted_is_sorted_list_of_set)
    with t show "inorder h n = sorted_list_of_set (tree_keys h n)" by simp
  qed
  from k t have s: "set (map entry_key ?es) = tree_keys h n" by (simp only:)
  from k o have o': "ordered h n \<longrightarrow> map entry_key ?es = sorted_list_of_set (tree_keys h n)"
    by (simp only:)
  from c k s o' show ?thesis by blast
qed

text \<open>A tree of height 2 over the keys 10, 20, ..., 70; the arrays of some nodes have
  a dead slot past \<open>len\<close>.\<close>

theorem children_of_node_inorder_witness:
  "wf_node 2
     (Node [40::int, 0] [''d'', ''-''] 1
        [Node [20, 0] [''b'', ''-''] 1 [Node [10] [''a''] 1 [], Node [30] [''c''] 1 []],
         Node [60, 0] [''f'', ''-''] 1 [Node [50] [''e''] 1 [], Node [70, 0] [''g'', ''-''] 1 []]]) \<and>
   ordered 2
     (Node [40::int, 0] [''d'', ''-''] 1
        [Node [20, 0] [''b'', ''-''] 1 [Node [10] [''a''] 1 [], Node [30] [''c''] 1 []],
         Node [60, 0] [''f'', ''-''] 1 [Node [50] [''e''] 1 [], Node [70, 0] [''g'', ''-''] 1 []]]) \<and>
   children_of_node
     (Node [40::int, 0] [''d'', ''-''] 1
        [Node [20, 0] [''b'', ''-''] 1 [Node [10] [''a''] 1 [], Node [30] [''c''] 1 []],
         Node [60, 0] [''f'', ''-''] 1 [Node [50] [''e''] 1 [], Node [70, 0] [''g'', ''-''] 1 []]])
     2 False
   = Inr [Key 10, Key 20, Key 30, Key 40, Key 50, Key 60, Key (70::int)]"
proof -
  let ?t = "Node [40, 0] [''d'', ''-''] 1
        [Node [20, 0] [''b'', ''-''] 1 [Node [10] [''a''] 1 [], Node [30] [''c''] 1 []],
         Node [60, 0] [''f'', ''-''] 1 [Node [50] [''e''] 1 [], Node [70, 0] [''g'', ''-''] 1 []]]
        :: (int, string) node"
  have two: "(2::nat) = Suc (Suc 0)" by simp
  have w: "wf_node 2 ?t" unfolding two by simp
  have o: "ordered 2 ?t" unfolding two by simp
  have e: "inorder_entries False 2 ?t = [Key 10, Key 20, Key 30, Key 40, Key 50, Key 60, Key 70]"
    unfolding two by (simp add: own_entry_def)
  from children_of_node_inorder [OF w, of False] e
  have "children_of_node ?t 2 False = Inr [Key 10, Key 20, Key 30, Key 40, Key 50, Key 60, Key 70]"
    by simp
  with w o show ?thesis by simp
qed

end
